theory Spec2Isabelle
  imports Complex_Main
begin

section \<open>Values and errors\<close>

text \<open>
  The script works on NumPy arrays of binary64 numbers. The numbers read from the data
  files and from the command line are modelled as \<^typ>\<open>real\<close>: every finite float is
  a real number and the order of finite floats is the order of the reals. So every
  statement below is about data files and command line values that hold finite numbers;
  the infinities and NaN appear as results of a division only.
  A Python exception is a value \<open>Inl e\<close> of a sum type.
\<close>

datatype py_error = OSError | ValueError | IndexError

text \<open>
  An array as \<open>np.loadtxt\<close> returns it: zero-, one- or two-dimensional. In \<open>A2\<close> the
  outer list holds the rows.
\<close>

datatype ndarray = A0 real | A1 "real list" | A2 "real list list"

text \<open>
  Indexing a Python list or a one-dimensional array with a non-negative index, as in
  \<open>w[wi]\<close> and \<open>clrs[j]\<close>: IndexError when the index is not below the length.
\<close>

definition getitem :: "'a list \<Rightarrow> nat \<Rightarrow> py_error + 'a" where
  "getitem a i = (if i < length a then Inr (a ! i) else Inl IndexError)"

section \<open>Slice selection (lines 88 to 103 of the script)\<close>

text \<open>
  \<open>np.max\<close> of a one-dimensional array: the reduction with \<open>maximum\<close>, which raises
  ValueError on an array of size zero.
\<close>

fun np_max :: "real list \<Rightarrow> py_error + real" where
  "np_max [] = Inl ValueError"
| "np_max (x # xs) = Inr (fold max xs x)"

text \<open>\<open>np.max\<close> of an array of any dimension reduces over all its elements.\<close>

fun amax :: "ndarray \<Rightarrow> py_error + real" where
  "amax (A0 x) = Inr x"
| "amax (A1 xs) = np_max xs"
| "amax (A2 xss) = np_max (concat xss)"

text \<open>
  \<open>np.searchsorted(a, v)\<close> with the default \<open>side='left'\<close> is NumPy's left binary search:
  \<^verbatim>\<open>
  min_idx = 0; max_idx = arr_len;
  while (min_idx < max_idx) {
      mid = min_idx + ((max_idx - min_idx) >> 1);
      if (arr[mid] < key) min_idx = mid + 1; else max_idx = mid;
  }
  return min_idx;
  \<close>
\<close>

function binsearch_left :: "real list \<Rightarrow> real \<Rightarrow> nat \<Rightarrow> nat \<Rightarrow> nat" where
  "binsearch_left arr key min_idx max_idx =
     (if min_idx < max_idx then
        (let mid = min_idx + (max_idx - min_idx) div 2 in
         if arr ! mid < key then binsearch_left arr key (mid + 1) max_idx
         else binsearch_left arr key min_idx mid)
      else min_idx)"
  by pat_completeness auto
termination
  by (relation "measure (\<lambda>(arr, key, min_idx, max_idx). max_idx - min_idx)") auto

declare binsearch_left.simps [simp del]

definition np_searchsorted :: "real list \<Rightarrow> real \<Rightarrow> nat" where
  "np_searchsorted a v = binsearch_left a v 0 (length a)"

text \<open>
  The axis \<open>w\<close> of the script is the array \<open>np.loadtxt\<close> returned for \<open>w.txt\<close>.
  Lines 88 to 91: \<open>display_width\<close> is \<open>np.max(w)\<close> when no \<open>--width\<close> was given
  (\<open>args.width is None\<close>) and the given value otherwise.
\<close>

definition display_width :: "ndarray \<Rightarrow> real option \<Rightarrow> py_error + real" where
  "display_width w width =
     (case width of None \<Rightarrow> amax w | Some v \<Rightarrow> Inr v)"

text \<open>
  Lines 101 and 103: \<open>wi = np.searchsorted(w, display_width)\<close>, followed at once by the
  read \<open>w[wi]\<close> of the report line. \<open>np.searchsorted\<close> takes a one-dimensional array
  and raises ValueError on an array of any other dimension, so on the zero-dimensional
  array of an axis file with one sample. The selected index is returned when the read
  succeeds; otherwise the script stops with the exception.
\<close>

definition wi :: "ndarray \<Rightarrow> real option \<Rightarrow> py_error + nat" where
  "wi w width =
     (case display_width w width of
        Inl e \<Rightarrow> Inl e
      | Inr v \<Rightarrow>
          (case w of
             A1 xs \<Rightarrow>
               (let i = np_searchsorted xs v in
                case getitem xs i of Inl e \<Rightarrow> Inl e | Inr x \<Rightarrow> Inr i)
           | _ \<Rightarrow> Inl ValueError))"

text \<open>A strictly ascending axis vector.\<close>

definition strictly_ascending :: "real list \<Rightarrow> bool" where
  "strictly_ascending w = sorted_wrt (<) w"

section \<open>The palette of the peak markers (lines 98, 116 and 117)\<close>

definition clrs :: "string list" where
  "clrs = [''C0'', ''C1'', ''C2'', ''C3'', ''C4'', ''C5'']"

text \<open>
  \<open>for j in range(npeaks): ax1.plot(..., c=clrs[j])\<close>: the colours looked up by the loop
  in order, or the exception of the first lookup that fails. \<open>range\<close> of a negative
  number is empty.
\<close>

fun lookup_colors :: "nat list \<Rightarrow> py_error + string list" where
  "lookup_colors [] = Inr []"
| "lookup_colors (j # js) =
     (case getitem clrs j of
        Inl e \<Rightarrow> Inl e
      | Inr c \<Rightarrow> (case lookup_colors js of Inl e \<Rightarrow> Inl e | Inr cs \<Rightarrow> Inr (c # cs)))"

definition peak_colors :: "int \<Rightarrow> py_error + string list" where
  "peak_colors npeaks = lookup_colors [0..<nat npeaks]"

section \<open>Display normalisation (lines 112 and 135)\<close>

text \<open>
  The result grid \<open>Delta\<close> is a three-dimensional array indexed
  \<open>[row, column, slice]\<close>, modelled as nested lists. \<open>Delta[:,:,i]\<close> reads the
  two-dimensional slice at index \<open>i\<close> of the last axis, with IndexError when \<open>i\<close> is
  not below the extent of that axis. (A grid without cells does not record that extent in
  the nested lists; there the model reads an empty slice, on which \<open>np.max\<close> raises.)
\<close>

type_synonym grid = "real list list list"

definition get_slice :: "grid \<Rightarrow> nat \<Rightarrow> py_error + real list list" where
  "get_slice Delta i =
     (if list_all (list_all (\<lambda>cell. i < length cell)) Delta
      then Inr (map (map (\<lambda>cell. cell ! i)) Delta)
      else Inl IndexError)"

text \<open>
  Array division is element-wise binary64 division, and it never raises. Its result is a
  float: a finite number, an infinity or NaN. With a nonzero divisor the result is the
  real quotient rounded to the float format, which is an infinity when the quotient is
  beyond the format's range; the rounding \<open>rnd\<close> is a parameter of the model. With a zero
  divisor the result is NaN for \<open>0/0\<close> and otherwise an infinity whose sign depends on the
  sign bit of the zero, which a real number does not carry: the value \<open>InfByZero\<close>.
  NumPy reports a zero divisor with a RuntimeWarning only.
\<close>

datatype npval = Num real | PosInf | NegInf | NaN | InfByZero

definition true_divide :: "(real \<Rightarrow> npval) \<Rightarrow> real \<Rightarrow> real \<Rightarrow> npval" where
  "true_divide rnd x y =
     (if y = 0 then (if x = 0 then NaN else InfByZero) else rnd (x / y))"




text \<open>Line 112: \<open>d = Delta[:,:,wi]/np.max(Delta[:,:,wi])\<close>.\<close>

definition d :: "(real \<Rightarrow> npval) \<Rightarrow> grid \<Rightarrow> nat \<Rightarrow> py_error + npval list list" where
  "d rnd Delta i =
     (case get_slice Delta i of
        Inl e \<Rightarrow> Inl e
      | Inr sl \<Rightarrow>
          (case np_max (concat sl) of
             Inl e \<Rightarrow> Inl e
           | Inr m \<Rightarrow> Inr (map (map (\<lambda>x. true_divide rnd x m)) sl)))"

text \<open>
  Line 135: \<open>ax2.plot(spectrum[:,0], spectrum[:,1]/np.max(spectrum[:,1]), '-k')\<close>, where
  \<open>spectrum\<close> is the array \<open>np.loadtxt\<close> returned for \<open>spectrum.txt\<close>. The column read
  \<open>spectrum[:,k]\<close> takes a two-dimensional array with more than \<open>k\<close> columns and raises
  IndexError on any other array, so on the one-dimensional array of a spectrum file with
  a single row. The arguments are evaluated from left to right.
\<close>

fun column :: "ndarray \<Rightarrow> nat \<Rightarrow> py_error + real list" where
  "column (A2 rows) k =
     (if list_all (\<lambda>row. k < length row) rows
      then Inr (map (\<lambda>row. row ! k) rows)
      else Inl IndexError)"
| "column (A1 xs) k = Inl IndexError"
| "column (A0 x) k = Inl IndexError"

definition spectrum_normalized :: "(real \<Rightarrow> npval) \<Rightarrow> ndarray \<Rightarrow> py_error + npval list" where
  "spectrum_normalized rnd spectrum =
     (case column spectrum 0 of
        Inl e \<Rightarrow> Inl e
      | Inr wavelengths \<Rightarrow>
          (case column spectrum 1 of
             Inl e \<Rightarrow> Inl e
           | Inr col \<Rightarrow>
               (case np_max col of
                  Inl e \<Rightarrow> Inl e
                | Inr m \<Rightarrow> Inr (map (\<lambda>x. true_divide rnd x m) col))))"

section \<open>Loading a saved calculation (lines 43 to 60)\<close>

subsection \<open>Paths and files\<close>

text \<open>
  \<open>os.path.join\<close> of two parts on a POSIX system: an absolute second part replaces the
  first; otherwise the parts are joined with one separator, which is not added after an
  empty first part or one that already ends with it.
\<close>

definition join :: "string \<Rightarrow> string \<Rightarrow> string" where
  "join a b =
     (if b \<noteq> [] \<and> hd b = CHR ''/'' then b
      else if a = [] \<or> last a = CHR ''/'' then a @ b
      else a @ ''/'' @ b)"

text \<open>
  The file system as the script reads it: what a path names, if anything. A text file is
  given by its rows of numbers, that is by the values \<open>np.loadtxt\<close> parses from its lines
  (blank lines hold no values and are skipped).
\<close>

datatype entry = Dir | TextFile "real list list"

type_synonym filesystem = "string \<Rightarrow> entry option"

definition exists :: "filesystem \<Rightarrow> string \<Rightarrow> bool" where
  "exists fs path = (fs path \<noteq> None)"

subsection \<open>Arrays and \<open>np.loadtxt\<close>\<close>

text \<open>\<open>a.size\<close>, the number of elements of an array.\<close>

fun size_of :: "ndarray \<Rightarrow> nat" where
  "size_of (A0 x) = 1"
| "size_of (A1 xs) = length xs"
| "size_of (A2 xss) = length (concat xss)"

text \<open>
  \<open>np.loadtxt\<close> with its default \<open>ndmin=0\<close> removes every axis of length one from the
  table it has read (\<open>np.squeeze\<close>): a single value becomes a zero-dimensional array, a
  single row or a single column a one-dimensional one.
\<close>

fun squeeze :: "real list list \<Rightarrow> ndarray" where
  "squeeze [[x]] = A0 x"
| "squeeze [row] = A1 row"
| "squeeze rows = (if list_all (\<lambda>row. length row = 1) rows then A1 (map hd rows) else A2 rows)"

text \<open>
  \<open>np.loadtxt(path)\<close>: OSError when the path names no file, ValueError when the rows
  differ in their number of columns, an empty one-dimensional array (and a warning) when
  the file holds no values.
\<close>

definition loadtxt :: "filesystem \<Rightarrow> string \<Rightarrow> py_error + ndarray" where
  "loadtxt fs path =
     (case fs path of
        None \<Rightarrow> Inl OSError
      | Some Dir \<Rightarrow> Inl OSError
      | Some (TextFile t) \<Rightarrow>
          (case filter (\<lambda>row. row \<noteq> []) t of
             [] \<Rightarrow> Inr (A1 [])
           | row # rows \<Rightarrow>
               if list_all (\<lambda>r. length r = length row) rows
               then Inr (squeeze (row # rows))
               else Inl ValueError))"

subsection \<open>The grid and the slice assignment\<close>

text \<open>\<open>np.zeros((rows, cols, N))\<close>.\<close>

definition zeros :: "nat \<Rightarrow> nat \<Rightarrow> nat \<Rightarrow> grid" where
  "zeros rows cols N = replicate rows (replicate cols (replicate N 0))"

text \<open>
  The assignment \<open>Delta[:,:,i] = X\<close> broadcasts \<open>X\<close> to the shape \<open>(rows, cols)\<close> of the
  slice: the shapes are aligned at their last axes, an axis of \<open>X\<close> must have the extent
  of the slice's axis or extent one, and a missing leading axis is repeated. ValueError
  otherwise.
\<close>

definition broadcast_row :: "real list \<Rightarrow> nat \<Rightarrow> py_error + real list" where
  "broadcast_row xs cols =
     (if length xs = cols then Inr xs
      else if length xs = 1 then Inr (replicate cols (hd xs))
      else Inl ValueError)"

fun broadcast_rows :: "real list list \<Rightarrow> nat \<Rightarrow> py_error + real list list" where
  "broadcast_rows [] cols = Inr []"
| "broadcast_rows (xs # xss) cols =
     (case broadcast_row xs cols of
        Inl e \<Rightarrow> Inl e
      | Inr r \<Rightarrow> (case broadcast_rows xss cols of Inl e \<Rightarrow> Inl e | Inr rs \<Rightarrow> Inr (r # rs)))"

fun broadcast_to :: "ndarray \<Rightarrow> nat \<Rightarrow> nat \<Rightarrow> py_error + real list list" where
  "broadcast_to (A0 x) rows cols = Inr (replicate rows (replicate cols x))"
| "broadcast_to (A1 xs) rows cols =
     (case broadcast_row xs cols of Inl e \<Rightarrow> Inl e | Inr r \<Rightarrow> Inr (replicate rows r))"
| "broadcast_to (A2 xss) rows cols =
     (case broadcast_rows xss cols of
        Inl e \<Rightarrow> Inl e
      | Inr rs \<Rightarrow>
          if length rs = rows then Inr rs
          else if length rs = 1 then Inr (replicate rows (hd rs))
          else Inl ValueError)"

text \<open>Writing the broadcast values into the slice at index \<open>i\<close>.\<close>

definition set_slice :: "grid \<Rightarrow> nat \<Rightarrow> real list list \<Rightarrow> grid" where
  "set_slice Delta i V =
     map2 (\<lambda>row vrow. map2 (\<lambda>cell v. cell[i := v]) row vrow) Delta V"

text \<open>
  Shapes: a table of \<open>rows\<close> rows with \<open>cols\<close> values each, and a grid of shape
  \<open>(rows, cols, N)\<close>.
\<close>

definition table_shape :: "real list list \<Rightarrow> nat \<Rightarrow> nat \<Rightarrow> bool" where
  "table_shape t rows cols = (length t = rows \<and> list_all (\<lambda>r. length r = cols) t)"

definition has_shape :: "grid \<Rightarrow> nat \<Rightarrow> nat \<Rightarrow> nat \<Rightarrow> bool" where
  "has_shape G rows cols N =
     (length G = rows \<and>
      list_all (\<lambda>row. length row = cols \<and> list_all (\<lambda>cell. length cell = N) row) G)"

subsection \<open>\<open>load_calculated_data\<close>\<close>

text \<open>\<open>str(i)\<close> for a loop index: its decimal digits.\<close>

definition digit :: "nat \<Rightarrow> char" where
  "digit n = ''0123456789'' ! n"

function str :: "nat \<Rightarrow> string" where
  "str n = (if n < 10 then [digit n] else str (n div 10) @ [digit (n mod 10)])"
  by pat_completeness auto
termination
  by (relation "measure (\<lambda>n. n)") auto

declare str.simps [simp del]

text \<open>
  The loop of lines 58 and 59 over the indices \<open>range(N)\<close>; it stops at the first
  exception.
\<close>

fun load_slices ::
  "filesystem \<Rightarrow> string \<Rightarrow> nat \<Rightarrow> nat \<Rightarrow> nat list \<Rightarrow> grid \<Rightarrow> py_error + grid" where
  "load_slices fs directory rows cols [] Delta = Inr Delta"
| "load_slices fs directory rows cols (i # is) Delta =
     (case loadtxt fs (join directory (''Delta_'' @ str i @ ''.txt'')) of
        Inl e \<Rightarrow> Inl e
      | Inr X \<Rightarrow>
          (case broadcast_to X rows cols of
             Inl e \<Rightarrow> Inl e
           | Inr V \<Rightarrow> load_slices fs directory rows cols is (set_slice Delta i V)))"

record calc_data =
  l0 :: ndarray
  dl :: ndarray
  w :: ndarray
  Delta :: grid

text \<open>Lines 50 to 60, for the directory the function has settled on.\<close>

definition load_from :: "filesystem \<Rightarrow> string \<Rightarrow> py_error + (calc_data \<times> ndarray)" where
  "load_from fs directory =
     (case loadtxt fs (join directory ''l0.txt'') of Inl e \<Rightarrow> Inl e | Inr l0v \<Rightarrow>
      case loadtxt fs (join directory ''dl.txt'') of Inl e \<Rightarrow> Inl e | Inr dlv \<Rightarrow>
      case loadtxt fs (join directory ''w.txt'') of Inl e \<Rightarrow> Inl e | Inr wv \<Rightarrow>
      case loadtxt fs (join directory ''spectrum.txt'') of Inl e \<Rightarrow> Inl e | Inr spectrum \<Rightarrow>
        (let rows = size_of dlv; cols = size_of l0v; N = size_of wv in
         case load_slices fs directory rows cols [0..<N] (zeros rows cols N) of
           Inl e \<Rightarrow> Inl e
         | Inr G \<Rightarrow> Inr (\<lparr>l0 = l0v, dl = dlv, w = wv, Delta = G\<rparr>, spectrum)))"

text \<open>
  The function returns what it printed together with its result: an exception, \<open>None\<close>
  (the bare \<open>return\<close> of line 49) or the pair \<open>[l0, dl, w, Delta], spectrum\<close>.
\<close>

definition load_calculated_data ::
  "filesystem \<Rightarrow> string \<Rightarrow> string list \<times> (py_error + (calc_data \<times> ndarray) option)" where
  "load_calculated_data fs directory =
     (if \<not> exists fs directory then
        if exists fs (join ''calculations'' directory)
        then ([], map_sum id Some (load_from fs (join ''calculations'' directory)))
        else ([''Error could not find '' @ directory], Inr None)
      else ([], map_sum id Some (load_from fs directory)))"

subsection \<open>Two saved calculations\<close>

text \<open>
  Concrete directories on which the statements below are run. \<open>saved_run\<close> holds a
  calculation under the fallback root with three \<open>l0\<close> samples, two \<open>dl\<close> samples and
  two \<open>w\<close> samples. \<open>single_column_run\<close> holds one with a single \<open>l0\<close> sample, two \<open>dl\<close>
  samples and one \<open>w\<close> sample, so that its slice file is a table of two rows and one
  column.
\<close>

definition saved_run :: filesystem where
  "saved_run = map_of
     [(''calculations'', Dir),
      (''calculations/run1'', Dir),
      (''calculations/run1/l0.txt'', TextFile [[1], [2], [3]]),
      (''calculations/run1/dl.txt'', TextFile [[10], [20]]),
      (''calculations/run1/w.txt'', TextFile [[1/2], [1]]),
      (''calculations/run1/spectrum.txt'', TextFile [[400, 1], [500, 2]]),
      (''calculations/run1/Delta_0.txt'', TextFile [[1, 2, 3], [4, 5, 6]]),
      (''calculations/run1/Delta_1.txt'', TextFile [[7, 8, 9], [10, 11, 12]])]"

definition single_column_run :: filesystem where
  "single_column_run = map_of
     [(''run'', Dir),
      (''run/l0.txt'', TextFile [[500]]),
      (''run/dl.txt'', TextFile [[10], [20]]),
      (''run/w.txt'', TextFile [[1/2]]),
      (''run/spectrum.txt'', TextFile [[400, 1], [500, 2]]),
      (''run/Delta_0.txt'', TextFile [[1], [2]])]"


section \<open>Properties of the sorted search\<close>

text \<open>
  The loop invariant of the binary search: everything left of \<open>min_idx\<close> is below the
  key and everything from \<open>max_idx\<close> on is at or above it.
\<close>

lemma binsearch_left_spec:
  assumes "sorted arr" "lo \<le> hi" "hi \<le> length arr"
    and "\<forall>j<lo. arr ! j < key"
    and "\<forall>j. hi \<le> j \<and> j < length arr \<longrightarrow> key \<le> arr ! j"
  shows "lo \<le> binsearch_left arr key lo hi \<and> binsearch_left arr key lo hi \<le> hi \<and>
         (\<forall>j<binsearch_left arr key lo hi. arr ! j < key) \<and>
         (\<forall>j. binsearch_left arr key lo hi \<le> j \<and> j < length arr \<longrightarrow> key \<le> arr ! j)"
  using assms
proof (induction arr key lo hi rule: binsearch_left.induct)
  case (1 arr key lo hi)
  show ?case
  proof (cases "lo < hi")
    case False
    then have "binsearch_left arr key lo hi = lo"
      by (simp add: binsearch_left.simps [of arr key lo hi])
    moreover from False "1.prems"(2) have "lo = hi" by simp
    ultimately show ?thesis using "1.prems"(4,5) by simp
  next
    case True
    define mid where "mid = lo + (hi - lo) div 2"
    have mid: "lo \<le> mid" "mid < hi" using True by (auto simp: mid_def)
    show ?thesis
    proof (cases "arr ! mid < key")
      case lt: True
      have below: "\<forall>j<mid + 1. arr ! j < key"
      proof (intro allI impI)
        fix j assume "j < mid + 1"
        then have "j \<le> mid" by simp
        with \<open>sorted arr\<close> mid "1.prems"(3) have "arr ! j \<le> arr ! mid"
          by (auto simp: sorted_iff_nth_mono)
        with lt show "arr ! j < key" by simp
      qed
      have eq: "binsearch_left arr key lo hi = binsearch_left arr key (mid + 1) hi"
        using True lt by (simp add: binsearch_left.simps [of arr key lo hi] mid_def Let_def)
      have "mid + 1 \<le> binsearch_left arr key (mid + 1) hi \<and>
            binsearch_left arr key (mid + 1) hi \<le> hi \<and>
            (\<forall>j<binsearch_left arr key (mid + 1) hi. arr ! j < key) \<and>
            (\<forall>j. binsearch_left arr key (mid + 1) hi \<le> j \<and> j < length arr \<longrightarrow> key \<le> arr ! j)"
        using "1.IH"(1) [OF True mid_def lt "1.prems"(1) _ "1.prems"(3) below "1.prems"(5)] mid
        by simp
      with eq mid show ?thesis by auto
    next
      case ge: False
      have above: "\<forall>j. mid \<le> j \<and> j < length arr \<longrightarrow> key \<le> arr ! j"
      proof (intro allI impI)
        fix j assume j: "mid \<le> j \<and> j < length arr"
        with \<open>sorted arr\<close> have "arr ! mid \<le> arr ! j"
          by (auto simp: sorted_iff_nth_mono)
        with ge show "key \<le> arr ! j" by simp
      qed
      have eq: "binsearch_left arr key lo hi = binsearch_left arr key lo mid"
        using True ge by (simp add: binsearch_left.simps [of arr key lo hi] mid_def Let_def)
      have "lo \<le> binsearch_left arr key lo mid \<and>
            binsearch_left arr key lo mid \<le> mid \<and>
            (\<forall>j<binsearch_left arr key lo mid. arr ! j < key) \<and>
            (\<forall>j. binsearch_left arr key lo mid \<le> j \<and> j < length arr \<longrightarrow> key \<le> arr ! j)"
        using "1.IH"(2) [OF True mid_def ge "1.prems"(1) mid(1) _ "1.prems"(4) above] mid "1.prems"(3)
        by simp
      with eq mid show ?thesis by auto
    qed
  qed
qed

text \<open>
  On a sorted array the result is the insertion point: the number of elements below
  the value.
\<close>

lemma np_searchsorted_spec:
  assumes "sorted a"
  shows "np_searchsorted a v \<le> length a"
    and "j < np_searchsorted a v \<Longrightarrow> a ! j < v"
    and "np_searchsorted a v \<le> j \<Longrightarrow> j < length a \<Longrightarrow> v \<le> a ! j"
  using binsearch_left_spec [of a 0 "length a" v] assms
  by (auto simp: np_searchsorted_def)

lemma strictly_ascending_sorted: "strictly_ascending xs \<Longrightarrow> sorted xs"
  unfolding strictly_ascending_def
  by (metis sorted_wrt_mono_rel less_imp_le)

lemma np_searchsorted_mono:
  assumes "sorted a" "v1 \<le> v2"
  shows "np_searchsorted a v1 \<le> np_searchsorted a v2"
proof (rule ccontr)
  assume "\<not> ?thesis"
  then have lt: "np_searchsorted a v2 < np_searchsorted a v1" by simp
  with np_searchsorted_spec(1) [OF assms(1), of v1] have "np_searchsorted a v2 < length a" by simp
  with np_searchsorted_spec(3) [OF assms(1), of v2 "np_searchsorted a v2"]
  have "v2 \<le> a ! np_searchsorted a v2" by simp
  moreover from np_searchsorted_spec(2) [OF assms(1) lt] have "a ! np_searchsorted a v2 < v1" .
  ultimately show False using assms(2) by simp
qed

lemma np_searchsorted_above_max:
  assumes "sorted a" "a \<noteq> []" "last a < v"
  shows "np_searchsorted a v = length a"
proof (rule ccontr)
  assume "np_searchsorted a v \<noteq> length a"
  with np_searchsorted_spec(1) [OF assms(1), of v] have lt: "np_searchsorted a v < length a"
    by simp
  then have "v \<le> a ! np_searchsorted a v"
    using np_searchsorted_spec(3) [OF assms(1), of v "np_searchsorted a v"] by simp
  moreover have "a ! np_searchsorted a v \<le> last a"
    using assms(1,2) lt by (simp add: last_conv_nth sorted_iff_nth_mono)
  ultimately show False using assms(3) by simp
qed

lemma np_searchsorted_at_or_below_min:
  assumes "sorted a" "a \<noteq> []" "v \<le> hd a"
  shows "np_searchsorted a v = 0"
proof (rule ccontr)
  assume "np_searchsorted a v \<noteq> 0"
  then have "0 < np_searchsorted a v" by simp
  from np_searchsorted_spec(2) [OF assms(1) this] have "a ! 0 < v" .
  with assms(2,3) show False by (simp add: hd_conv_nth)
qed

lemma np_searchsorted_last:
  assumes "strictly_ascending a" "a \<noteq> []"
  shows "np_searchsorted a (last a) = length a - 1"
proof -
  have srt: "sorted a" using assms(1) by (rule strictly_ascending_sorted)
  have n: "0 < length a" using assms(2) by simp
  have la: "last a = a ! (length a - 1)" using assms(2) by (rule last_conv_nth)
  have "\<not> length a - 1 < np_searchsorted a (last a)"
  proof
    assume "length a - 1 < np_searchsorted a (last a)"
    from np_searchsorted_spec(2) [OF srt this] la show False by simp
  qed
  moreover have "\<not> np_searchsorted a (last a) < length a - 1"
  proof
    assume lt: "np_searchsorted a (last a) < length a - 1"
    then have "last a \<le> a ! np_searchsorted a (last a)"
      using np_searchsorted_spec(3) [OF srt, of "last a" "np_searchsorted a (last a)"] by simp
    moreover have "a ! np_searchsorted a (last a) < a ! (length a - 1)"
      using assms(1) lt n unfolding strictly_ascending_def
      by (simp add: sorted_wrt_iff_nth_less)
    ultimately show False using la by simp
  qed
  ultimately show ?thesis by simp
qed

lemma fold_max_sorted:
  "sorted (x # xs) \<Longrightarrow> fold max xs x = last (x # xs)"
proof (induction xs arbitrary: x)
  case Nil
  then show ?case by simp
next
  case (Cons y ys)
  then have "max y x = y" by simp
  moreover have "sorted (y # ys)" using Cons.prems by simp
  ultimately show ?case using Cons.IH [of y] by simp
qed

lemma np_max_sorted:
  "sorted a \<Longrightarrow> a \<noteq> [] \<Longrightarrow> np_max a = Inr (last a)"
  by (cases a) (simp_all add: fold_max_sorted del: sorted_simps last.simps)

section \<open>Claims about slice selection\<close>

lemma wi_at_or_below_min:
  assumes "strictly_ascending xs" "xs \<noteq> []" "v \<le> hd xs"
  shows "wi (A1 xs) (Some v) = Inr 0"
  using np_searchsorted_at_or_below_min [OF strictly_ascending_sorted [OF assms(1)] assms(2,3)]
    assms(2)
  by (simp add: wi_def display_width_def getitem_def)

text \<open>
  Claim C1. The claim says that a requested value outside the range of a strictly
  ascending axis selects the nearest boundary sample without error: index 0 below the
  minimum and the last index \<open>len(w) - 1\<close> above the maximum. Below the minimum the
  script does select index 0 (\<open>wi_at_or_below_min\<close>). Above the maximum it does not:
  the search returns the insertion point \<open>len(w)\<close>, one past the last index, and the read
  \<open>w[wi]\<close> of line 103 raises IndexError.
\<close>

theorem wi_above_max_raises:
  assumes "strictly_ascending xs" "xs \<noteq> []" "last xs < v"
  shows "np_searchsorted xs v = length xs \<and> wi (A1 xs) (Some v) = Inl IndexError"
  using np_searchsorted_above_max [OF strictly_ascending_sorted [OF assms(1)] assms(2,3)]
  by (simp add: wi_def display_width_def getitem_def)

theorem wi_above_max_raises_witness:
  "strictly_ascending [1, 2, 3] \<and> [1, 2, 3 :: real] \<noteq> [] \<and> last [1, 2, 3] < (4 :: real) \<and>
   np_searchsorted [1, 2, 3] 4 = length [1, 2, 3 :: real] \<and>
   wi (A1 [1, 2, 3]) (Some 4) = Inl IndexError"
proof -
  have a: "strictly_ascending [1, 2, 3]" by (simp add: strictly_ascending_def)
  have b: "[1, 2, 3 :: real] \<noteq> []" by simp
  have c: "last [1, 2, 3] < (4 :: real)" by simp
  from wi_above_max_raises [OF a b c] a b c show ?thesis by blast
qed

text \<open>
  Claim C3. The scenario with \<open>w = [0.5, 1.0]\<close>: the request 0.7 selects index 1 and the
  request -5 selects index 0, as the claim says. The request 5 does not select index 1:
  the search returns 2 and the script stops with IndexError at \<open>w[wi]\<close>.
\<close>

theorem scenario_selection:
  "wi (A1 [1/2, 1]) (Some (7/10)) = Inr 1 \<and>
   wi (A1 [1/2, 1]) (Some (- 5)) = Inr 0 \<and>
   np_searchsorted [1/2, 1] 5 = 2 \<and>
   wi (A1 [1/2, 1]) (Some 5) = Inl IndexError"
  by code_simp

text \<open>
  Claim C6. Slice selection is monotonic in the requested value: on a strictly ascending
  axis, \<open>v1 \<le> v2\<close> gives an index for \<open>v1\<close> that is at most the index for \<open>v2\<close>. This holds
  for the index computed at line 101, and whenever the script selects a slice for \<open>v2\<close> it
  selects one for \<open>v1\<close>, with an index that is not larger.
\<close>

theorem selection_monotone:
  assumes "strictly_ascending xs" "v1 \<le> v2"
  shows "np_searchsorted xs v1 \<le> np_searchsorted xs v2 \<and>
         (\<forall>i2. wi (A1 xs) (Some v2) = Inr i2 \<longrightarrow>
            (\<exists>i1. wi (A1 xs) (Some v1) = Inr i1 \<and> i1 \<le> i2))"
proof -
  have m: "np_searchsorted xs v1 \<le> np_searchsorted xs v2"
    using strictly_ascending_sorted [OF assms(1)] assms(2) by (rule np_searchsorted_mono)
  then show ?thesis
    by (auto simp: wi_def display_width_def getitem_def Let_def split: if_splits)
qed

theorem selection_monotone_witness:
  "strictly_ascending [1/2, 1] \<and> (3/10 :: real) \<le> 7/10 \<and>
   np_searchsorted [1/2, 1] (3/10) \<le> np_searchsorted [1/2, 1] (7/10) \<and>
   wi (A1 [1/2, 1]) (Some (7/10)) = Inr 1 \<and> wi (A1 [1/2, 1]) (Some (3/10)) = Inr 0"
proof -
  have a: "strictly_ascending [1/2, 1]" by (simp add: strictly_ascending_def)
  have b: "(3/10 :: real) \<le> 7/10" by simp
  have c: "wi (A1 [1/2, 1]) (Some (7/10)) = Inr 1" by code_simp
  have e: "wi (A1 [1/2, 1]) (Some (3/10)) = Inr 0" by code_simp
  from selection_monotone [OF a b] a b c e show ?thesis by blast
qed

text \<open>
  The default request on an axis of two or more samples. An axis file with one sample on
  each line is loaded as the one-dimensional array of its samples; with no \<open>--width\<close>
  the requested value is the maximum of the axis, and on a strictly ascending axis that
  request selects the last index \<open>len(w) - 1\<close>, where \<open>w[wi]\<close> is the maximum itself.
\<close>

lemma loadtxt_axis:
  assumes "fs path = Some (TextFile (map (\<lambda>x. [x]) xs))" "2 \<le> length xs"
  shows "loadtxt fs path = Inr (A1 xs)"
proof -
  from assms(2) obtain x y zs where xs: "xs = x # y # zs"
    by (cases xs; cases "tl xs") auto
  have "map hd (map (\<lambda>x. [x]) zs) = zs" by (induction zs) simp_all
  moreover have "list_all (\<lambda>r. length r = Suc 0) (map (\<lambda>x. [x]) zs)"
    by (induction zs) simp_all
  moreover have "filter (\<lambda>row. row \<noteq> []) (map (\<lambda>x. [x]) zs) = map (\<lambda>x. [x]) zs"
    by (induction zs) simp_all
  ultimately show ?thesis using assms(1) by (simp add: loadtxt_def xs)
qed

lemma default_selects_last:
  assumes "strictly_ascending xs" "xs \<noteq> []"
  shows "display_width (A1 xs) None = Inr (last xs) \<and>
         wi (A1 xs) None = Inr (length xs - 1) \<and>
         getitem xs (length xs - 1) = Inr (last xs)"
proof -
  have srt: "sorted xs" using assms(1) by (rule strictly_ascending_sorted)
  have mx: "np_max xs = Inr (last xs)" using srt assms(2) by (rule np_max_sorted)
  have ix: "np_searchsorted xs (last xs) = length xs - 1"
    using assms by (rule np_searchsorted_last)
  have n: "length xs - 1 < length xs" using assms(2) by simp
  show ?thesis
    using mx ix n assms(2)
    by (simp add: wi_def display_width_def getitem_def last_conv_nth)
qed

text \<open>
  Claim C8. The claim says that with no \<open>--width\<close> the requested value is the maximum of
  the axis and that on every strictly ascending axis this request selects the last index
  \<open>len(w) - 1\<close>. That is what the script does on an axis of two or more samples
  (\<open>loadtxt_axis\<close>, \<open>default_selects_last\<close>). It is not what it does on an axis of one
  sample, which is strictly ascending too: \<open>np.loadtxt\<close> returns a zero-dimensional
  array for \<open>w.txt\<close>, the default request is its value, and \<open>np.searchsorted\<close> raises
  ValueError at line 101, so no index is selected. The directory \<open>single_column_run\<close>
  has such an axis.
\<close>

theorem one_sample_default_fails:
  "single_column_run (join ''run'' ''w.txt'') = Some (TextFile [[1/2]]) \<and>
   strictly_ascending [1/2] \<and>
   loadtxt single_column_run (join ''run'' ''w.txt'') = Inr (A0 (1/2)) \<and>
   display_width (A0 (1/2)) None = Inr (1/2) \<and>
   wi (A0 (1/2)) None = Inl ValueError"
  by (simp add: single_column_run_def join_def strictly_ascending_def loadtxt_def
      display_width_def wi_def)

section \<open>Claims about directory resolution\<close>

text \<open>
  Claim C4. A directory name that does not exist as given but exists under
  \<open>calculations\<close> is resolved to the fallback path: nothing is reported, the result is
  not the \<open>None\<close> of the not-found branch, and the whole output (printed lines and
  result) is the output of the call on the joined fallback path; in particular the call
  returns the loaded data whenever loading the fallback path does.
\<close>

theorem fallback_same_as_direct:
  assumes "\<not> exists fs directory" "exists fs (join ''calculations'' directory)"
  shows "load_calculated_data fs directory =
           load_calculated_data fs (join ''calculations'' directory) \<and>
         fst (load_calculated_data fs directory) = [] \<and>
         snd (load_calculated_data fs directory) \<noteq> Inr None \<and>
         (\<forall>r. load_from fs (join ''calculations'' directory) = Inr r \<longrightarrow>
            snd (load_calculated_data fs directory) = Inr (Some r))"
proof -
  have "load_calculated_data fs directory =
          ([], map_sum id Some (load_from fs (join ''calculations'' directory)))"
    using assms by (simp add: load_calculated_data_def)
  moreover have "load_calculated_data fs (join ''calculations'' directory) =
          ([], map_sum id Some (load_from fs (join ''calculations'' directory)))"
    using assms(2) by (simp add: load_calculated_data_def)
  moreover have "map_sum id Some (load_from fs (join ''calculations'' directory)) \<noteq> Inr None"
    by (cases "load_from fs (join ''calculations'' directory)") simp_all
  ultimately show ?thesis by simp
qed

theorem fallback_same_as_direct_witness:
  "\<not> exists saved_run ''run1'' \<and> exists saved_run (join ''calculations'' ''run1'') \<and>
   load_calculated_data saved_run ''run1'' =
     load_calculated_data saved_run ''calculations/run1'' \<and>
   load_calculated_data saved_run ''run1'' =
     ([], Inr (Some (\<lparr>l0 = A1 [1, 2, 3], dl = A1 [10, 20], w = A1 [1/2, 1],
                       Delta = [[[1, 7], [2, 8], [3, 9]], [[4, 10], [5, 11], [6, 12]]]\<rparr>,
                     A2 [[400, 1], [500, 2]])))"
proof -
  have j: "join ''calculations'' ''run1'' = ''calculations/run1''"
    by (simp add: join_def)
  have a: "\<not> exists saved_run ''run1''"
    by (simp add: exists_def saved_run_def)
  have b: "exists saved_run (join ''calculations'' ''run1'')"
    by (simp add: j exists_def saved_run_def)
  have ld: "load_from saved_run ''calculations/run1'' =
      Inr (\<lparr>l0 = A1 [1, 2, 3], dl = A1 [10, 20], w = A1 [1/2, 1],
             Delta = [[[1, 7], [2, 8], [3, 9]], [[4, 10], [5, 11], [6, 12]]]\<rparr>,
           A2 [[400, 1], [500, 2]])"
    by code_simp
  note t = fallback_same_as_direct [OF a b, unfolded j]
  from t have e1: "load_calculated_data saved_run ''run1'' =
      load_calculated_data saved_run ''calculations/run1''"
    by (rule conjunct1)
  from t have e2: "fst (load_calculated_data saved_run ''run1'') = []"
    by blast
  from t ld have e3: "snd (load_calculated_data saved_run ''run1'') =
      Inr (Some (\<lparr>l0 = A1 [1, 2, 3], dl = A1 [10, 20], w = A1 [1/2, 1],
             Delta = [[[1, 7], [2, 8], [3, 9]], [[4, 10], [5, 11], [6, 12]]]\<rparr>,
           A2 [[400, 1], [500, 2]]))"
    by blast
  from e2 e3 have "load_calculated_data saved_run ''run1'' =
     ([], Inr (Some (\<lparr>l0 = A1 [1, 2, 3], dl = A1 [10, 20], w = A1 [1/2, 1],
                       Delta = [[[1, 7], [2, 8], [3, 9]], [[4, 10], [5, 11], [6, 12]]]\<rparr>,
                     A2 [[400, 1], [500, 2]])))"
    by (simp add: prod_eq_iff)
  with a b e1 show ?thesis by blast
qed

text \<open>
  Claim C5. A directory name that exists neither as given nor under \<open>calculations\<close>
  makes \<open>load_calculated_data\<close> report that it could not find the directory and return
  \<open>None\<close>: no grid, whole or partial, is returned.
\<close>

theorem missing_directory_reported:
  assumes "\<not> exists fs directory" "\<not> exists fs (join ''calculations'' directory)"
  shows "load_calculated_data fs directory =
           ([''Error could not find '' @ directory], Inr None)"
  using assms by (simp add: load_calculated_data_def)

theorem missing_directory_reported_witness:
  "\<not> exists saved_run ''run2'' \<and> \<not> exists saved_run (join ''calculations'' ''run2'') \<and>
   load_calculated_data saved_run ''run2'' = ([''Error could not find run2''], Inr None)"
proof -
  have a: "\<not> exists saved_run ''run2''"
    by (simp add: exists_def saved_run_def)
  have b: "\<not> exists saved_run (join ''calculations'' ''run2'')"
    by (simp add: join_def exists_def saved_run_def)
  from missing_directory_reported [OF a b] a b show ?thesis by simp
qed

section \<open>Claims about the palette\<close>

lemma lookup_colors_upt:
  "n \<le> length clrs \<Longrightarrow> lookup_colors [k..<n] = Inr (drop k (take n clrs))"
proof (induction "n - k" arbitrary: k)
  case 0
  then show ?case by simp
next
  case (Suc m)
  then have kn: "k < n" by simp
  then have upt: "[k..<n] = k # [Suc k..<n]" by (rule upt_conv_Cons)
  have "m = n - Suc k" using Suc.hyps(2) by simp
  from Suc.hyps(1) [OF this Suc.prems]
  have ih: "lookup_colors [Suc k..<n] = Inr (drop (Suc k) (take n clrs))" .
  have "drop k (take n clrs) = clrs ! k # drop (Suc k) (take n clrs)"
    using kn Suc.prems by (simp add: Cons_nth_drop_Suc [symmetric])
  with ih kn Suc.prems show ?case
    by (simp add: upt getitem_def)
qed

lemma lookup_colors_out_of_range:
  "length clrs \<in> set js \<Longrightarrow> lookup_colors js = Inl IndexError"
proof (induction js)
  case Nil
  then show ?case by simp
next
  case (Cons j js)
  show ?case
  proof (cases "j = length clrs")
    case True
    then show ?thesis by (simp add: getitem_def)
  next
    case False
    with Cons have "lookup_colors js = Inl IndexError" by simp
    then show ?thesis by (simp add: getitem_def)
  qed
qed

text \<open>
  Claim C9 as stated fails: the palette is not cyclic. With seven peaks the lookup
  \<open>clrs[6]\<close> is out of bounds.
\<close>

theorem seven_peaks_out_of_bounds:
  "getitem clrs 6 = Inl IndexError \<and> peak_colors 7 = Inl IndexError"
  by code_simp

text \<open>
  Claim C9, amended. For every peak count up to the palette size 6 the lookup is total:
  the peak with index \<open>j\<close> below the peak count gets the palette colour \<open>clrs[j]\<close>. There
  is no cycling: for a peak count above 6 the lookup raises IndexError.
\<close>

theorem peak_colors_within_palette:
  "(npeaks \<le> 6 \<longrightarrow>
      peak_colors npeaks = Inr (take (nat npeaks) clrs) \<and>
      (\<forall>j < nat npeaks. getitem clrs j = Inr (clrs ! j))) \<and>
   (6 < npeaks \<longrightarrow> peak_colors npeaks = Inl IndexError)"
proof (intro conjI impI)
  assume le: "npeaks \<le> 6"
  then have n: "nat npeaks \<le> length clrs" by (simp add: clrs_def)
  from lookup_colors_upt [OF n, of 0]
  show "peak_colors npeaks = Inr (take (nat npeaks) clrs)"
    by (simp add: peak_colors_def)
  from n show "\<forall>j < nat npeaks. getitem clrs j = Inr (clrs ! j)"
    by (simp add: getitem_def)
next
  assume "6 < npeaks"
  then have "length clrs \<in> set [0..<nat npeaks]" by (simp add: clrs_def)
  then show "peak_colors npeaks = Inl IndexError"
    unfolding peak_colors_def by (rule lookup_colors_out_of_range)
qed

theorem peak_colors_within_palette_witness:
  "(2 :: int) \<le> 6 \<and> peak_colors 2 = Inr [''C0'', ''C1''] \<and>
   (6 :: int) < 8 \<and> peak_colors 8 = Inl IndexError"
proof -
  have "peak_colors 2 = Inr (take (nat 2) clrs)"
    using peak_colors_within_palette [of 2] by simp
  moreover have "take (nat 2) clrs = [''C0'', ''C1'']" by (simp add: clrs_def)
  moreover have "peak_colors 8 = Inl IndexError"
    using peak_colors_within_palette [of 8] by simp
  ultimately show ?thesis by simp
qed

section \<open>Claims about the display normalisation\<close>











text \<open>
  A spectrum file with a single row is loaded as a one-dimensional array, on which the
  column reads of line 135 raise IndexError before anything is divided.
\<close>

lemma one_row_spectrum_raises:
  assumes "fs path = Some (TextFile [row])"
  shows "\<exists>spectrum. loadtxt fs path = Inr spectrum \<and>
           spectrum_normalized rnd spectrum = Inl IndexError"
proof (cases row)
  case Nil
  with assms show ?thesis by (simp add: loadtxt_def spectrum_normalized_def)
next
  case (Cons x xs)
  with assms show ?thesis
    by (cases xs) (simp_all add: loadtxt_def spectrum_normalized_def)
qed





section \<open>Claims about the reconstruction\<close>

lemma broadcast_rows_id:
  "list_all (\<lambda>r. length r = cols) t \<Longrightarrow> broadcast_rows t cols = Inr t"
  by (induction t) (simp_all add: broadcast_row_def)

lemma squeeze_broadcast:
  assumes "table_shape t rows cols" "0 < rows" "0 < cols" "cols \<noteq> 1 \<or> rows = 1"
  shows "broadcast_to (squeeze t) rows cols = Inr t"
proof (cases "rows = 1")
  case True
  with assms(1) obtain row where t: "t = [row]" and len: "length row = cols"
    by (cases t) (auto simp: table_shape_def)
  show ?thesis
  proof (cases "cols = 1")
    case c1: True
    with len obtain x where "row = [x]" by (cases row) auto
    with t True c1 show ?thesis by simp
  next
    case False
    with len assms(3) obtain x y zs where "row = x # y # zs"
      by (cases row; cases "tl row") auto
    with t True len show ?thesis by (simp add: broadcast_row_def)
  qed
next
  case False
  with assms(2,4) have c: "cols \<noteq> 1" and r: "2 \<le> rows" by auto
  with assms(1) obtain r1 r2 rs where t: "t = r1 # r2 # rs"
    by (cases t; cases "tl t") (auto simp: table_shape_def)
  from assms(1) have all: "list_all (\<lambda>r. length r = cols) t" and len: "length t = rows"
    by (simp_all add: table_shape_def)
  from all t c have "\<not> list_all (\<lambda>row. length row = 1) (r1 # r2 # rs)" by auto
  then have "squeeze t = A2 t" by (simp add: t)
  with broadcast_rows_id [OF all] len show ?thesis by simp
qed

lemma loadtxt_table:
  assumes "fs p = Some (TextFile t)" "table_shape t rows cols" "0 < rows" "0 < cols"
  shows "loadtxt fs p = Inr (squeeze t)"
proof -
  from assms(2,4) have ne: "\<forall>r\<in>set t. r \<noteq> []"
    by (auto simp: table_shape_def list_all_iff)
  then have f: "filter (\<lambda>row. row \<noteq> []) t = t" by simp
  from assms(2,3) obtain row rest where t: "t = row # rest"
    by (cases t) (auto simp: table_shape_def)
  with assms(2) have "list_all (\<lambda>r. length r = length row) rest"
    by (auto simp: table_shape_def list_all_iff)
  with assms(1) f t show ?thesis by (simp add: loadtxt_def)
qed

lemma set_row_shape:
  assumes "length row = length vrow" "list_all (\<lambda>cell. length cell = N) row"
  shows "length (map2 (\<lambda>cell v. cell[i := v]) row vrow) = length row \<and>
         list_all (\<lambda>cell. length cell = N) (map2 (\<lambda>cell v. cell[i := v]) row vrow)"
  using assms by (induction row vrow rule: list_induct2) simp_all

lemma set_row_read:
  assumes "length row = length vrow" "list_all (\<lambda>cell. length cell = N) row" "i < N"
  shows "map (\<lambda>cell. cell ! i) (map2 (\<lambda>cell v. cell[i := v]) row vrow) = vrow"
  using assms by (induction row vrow rule: list_induct2) simp_all

lemma set_row_other:
  assumes "length row = length vrow" "j \<noteq> i"
  shows "map (\<lambda>cell. cell ! j) (map2 (\<lambda>cell v. cell[i := v]) row vrow) =
         map (\<lambda>cell. cell ! j) row"
  using assms by (induction row vrow rule: list_induct2) simp_all

lemma set_row_index_ok:
  assumes "length row = length vrow"
  shows "list_all (\<lambda>cell. j < length cell) (map2 (\<lambda>cell v. cell[i := v]) row vrow) =
         list_all (\<lambda>cell. j < length cell) row"
  using assms by (induction row vrow rule: list_induct2) simp_all

lemma set_slice_shape:
  assumes "has_shape G rows cols N" "table_shape V rows cols"
  shows "has_shape (set_slice G i V) rows cols N"
proof -
  from assms have len: "length G = length V" by (simp add: has_shape_def table_shape_def)
  from len assms show ?thesis
  proof (induction G V arbitrary: rows rule: list_induct2)
    case Nil
    then show ?case by (simp add: has_shape_def set_slice_def)
  next
    case (Cons row G vrow V)
    from Cons.prems have r: "length row = length vrow"
      "list_all (\<lambda>cell. length cell = N) row" "length row = cols"
      by (simp_all add: has_shape_def table_shape_def)
    from Cons.prems have "has_shape G (length G) cols N" "table_shape V (length G) cols"
      using Cons.hyps by (simp_all add: has_shape_def table_shape_def)
    from Cons.IH [OF this] set_row_shape [OF r(1,2), of i] r(3) Cons.prems(1)
    show ?case by (simp add: has_shape_def set_slice_def)
  qed
qed

lemma shape_index_ok:
  "has_shape G rows cols N \<Longrightarrow> i < N \<Longrightarrow> list_all (list_all (\<lambda>cell. i < length cell)) G"
  by (auto simp: has_shape_def list_all_iff)

lemma set_slice_read:
  assumes "has_shape G rows cols N" "table_shape V rows cols" "i < N"
  shows "get_slice (set_slice G i V) i = Inr V"
proof -
  have ok: "list_all (list_all (\<lambda>cell. i < length cell)) (set_slice G i V)"
    using set_slice_shape [OF assms(1,2)] assms(3) by (rule shape_index_ok)
  from assms have len: "length G = length V" by (simp add: has_shape_def table_shape_def)
  from len assms(1,2) have "map (map (\<lambda>cell. cell ! i)) (set_slice G i V) = V"
  proof (induction G V arbitrary: rows rule: list_induct2)
    case Nil
    then show ?case by (simp add: set_slice_def)
  next
    case (Cons row G vrow V)
    from Cons.prems have r: "length row = length vrow"
      "list_all (\<lambda>cell. length cell = N) row"
      by (simp_all add: has_shape_def table_shape_def)
    from Cons.prems have "has_shape G (length G) cols N" "table_shape V (length G) cols"
      using Cons.hyps by (simp_all add: has_shape_def table_shape_def)
    from Cons.IH [OF this] set_row_read [OF r assms(3)]
    show ?case by (simp add: set_slice_def)
  qed
  with ok show ?thesis by (simp add: get_slice_def)
qed

lemma set_slice_other:
  assumes "has_shape G rows cols N" "table_shape V rows cols" "j \<noteq> i"
  shows "get_slice (set_slice G i V) j = get_slice G j"
proof -
  from assms have len: "length G = length V" by (simp add: has_shape_def table_shape_def)
  from len assms(1,2)
  have "map (map (\<lambda>cell. cell ! j)) (set_slice G i V) = map (map (\<lambda>cell. cell ! j)) G \<and>
        list_all (list_all (\<lambda>cell. j < length cell)) (set_slice G i V) =
        list_all (list_all (\<lambda>cell. j < length cell)) G"
  proof (induction G V arbitrary: rows rule: list_induct2)
    case Nil
    then show ?case by (simp add: set_slice_def)
  next
    case (Cons row G vrow V)
    from Cons.prems have r: "length row = length vrow"
      by (simp_all add: has_shape_def table_shape_def)
    from Cons.prems have "has_shape G (length G) cols N" "table_shape V (length G) cols"
      using Cons.hyps by (simp_all add: has_shape_def table_shape_def)
    from Cons.IH [OF this] set_row_other [OF r assms(3)] set_row_index_ok [OF r, of j i]
    show ?case by (simp add: set_slice_def)
  qed
  then show ?thesis by (simp add: get_slice_def)
qed

lemma zeros_shape: "has_shape (zeros rows cols N) rows cols N"
  by (simp add: zeros_def has_shape_def list_all_iff)

lemma load_slices_roundtrip:
  assumes "has_shape G rows cols N" "distinct js"
    and "\<forall>i\<in>set js. i < N \<and> table_shape (T i) rows cols \<and>
           (\<exists>X. loadtxt fs (join directory (''Delta_'' @ str i @ ''.txt'')) = Inr X \<and>
                broadcast_to X rows cols = Inr (T i))"
  shows "\<exists>G'. load_slices fs directory rows cols js G = Inr G' \<and>
           has_shape G' rows cols N \<and>
           (\<forall>i\<in>set js. get_slice G' i = Inr (T i)) \<and>
           (\<forall>j. j \<notin> set js \<longrightarrow> get_slice G' j = get_slice G j)"
  using assms
proof (induction js arbitrary: G)
  case Nil
  then show ?case by simp
next
  case (Cons i js)
  from Cons.prems(3) obtain X where i: "i < N" "table_shape (T i) rows cols"
    "loadtxt fs (join directory (''Delta_'' @ str i @ ''.txt'')) = Inr X"
    "broadcast_to X rows cols = Inr (T i)"
    by auto
  let ?G1 = "set_slice G i (T i)"
  have sh: "has_shape ?G1 rows cols N" using Cons.prems(1) i(2) by (rule set_slice_shape)
  from Cons.prems(2) have d: "distinct js" and ni: "i \<notin> set js" by simp_all
  from Cons.prems(3) have rest: "\<forall>i\<in>set js. i < N \<and> table_shape (T i) rows cols \<and>
           (\<exists>X. loadtxt fs (join directory (''Delta_'' @ str i @ ''.txt'')) = Inr X \<and>
                broadcast_to X rows cols = Inr (T i))"
    by simp
  from Cons.IH [OF sh d rest] obtain G' where G':
    "load_slices fs directory rows cols js ?G1 = Inr G'"
    "has_shape G' rows cols N"
    "\<forall>k\<in>set js. get_slice G' k = Inr (T k)"
    "\<forall>j. j \<notin> set js \<longrightarrow> get_slice G' j = get_slice ?G1 j"
    by blast
  have run: "load_slices fs directory rows cols (i # js) G = Inr G'"
    using i(3,4) G'(1) by simp
  have at_i: "get_slice G' i = Inr (T i)"
    using G'(4) ni set_slice_read [OF Cons.prems(1) i(2) i(1)] by simp
  have others: "get_slice G' j = get_slice G j" if "j \<notin> set (i # js)" for j
  proof -
    from that have "j \<notin> set js" "j \<noteq> i" by simp_all
    with G'(4) set_slice_other [OF Cons.prems(1) i(2), of j i] show ?thesis by simp
  qed
  from run G'(2,3) at_i others show ?case by auto
qed

text \<open>
  The round trip of the reconstruction for every shape but a single column of several
  rows: each slice of the returned grid is the table of its own file.
\<close>

lemma load_roundtrip:
  assumes axes: "loadtxt fs (join directory ''l0.txt'') = Inr l0v"
      "loadtxt fs (join directory ''dl.txt'') = Inr dlv"
      "loadtxt fs (join directory ''w.txt'') = Inr wv"
      "loadtxt fs (join directory ''spectrum.txt'') = Inr spectrum"
    and sizes: "size_of dlv = rows" "size_of l0v = cols" "size_of wv = N"
    and slices: "\<forall>i<N. fs (join directory (''Delta_'' @ str i @ ''.txt'')) = Some (TextFile (T i)) \<and>
           table_shape (T i) rows cols"
    and nondeg: "0 < rows" "0 < cols" "cols \<noteq> 1 \<or> rows = 1"
  shows "\<exists>G. load_from fs directory = Inr (\<lparr>l0 = l0v, dl = dlv, w = wv, Delta = G\<rparr>, spectrum) \<and>
           has_shape G rows cols N \<and> (\<forall>i<N. get_slice G i = Inr (T i))"
proof -
  have "\<forall>i\<in>set [0..<N]. i < N \<and> table_shape (T i) rows cols \<and>
           (\<exists>X. loadtxt fs (join directory (''Delta_'' @ str i @ ''.txt'')) = Inr X \<and>
                broadcast_to X rows cols = Inr (T i))"
  proof
    fix i assume "i \<in> set [0..<N]"
    then have iN: "i < N" by simp
    with slices have f: "fs (join directory (''Delta_'' @ str i @ ''.txt'')) = Some (TextFile (T i))"
      and sh: "table_shape (T i) rows cols" by simp_all
    from loadtxt_table [of fs "join directory (''Delta_'' @ str i @ ''.txt'')" "T i" rows cols,
        OF f sh nondeg(1,2)]
      squeeze_broadcast [OF sh nondeg]
    show "i < N \<and> table_shape (T i) rows cols \<and>
           (\<exists>X. loadtxt fs (join directory (''Delta_'' @ str i @ ''.txt'')) = Inr X \<and>
                broadcast_to X rows cols = Inr (T i))"
      using iN sh by blast
  qed
  moreover have "distinct [0..<N]" by simp
  ultimately have "\<exists>G'. load_slices fs directory rows cols [0..<N] (zeros rows cols N) = Inr G' \<and>
           has_shape G' rows cols N \<and>
           (\<forall>i\<in>set [0..<N]. get_slice G' i = Inr (T i)) \<and>
           (\<forall>j. j \<notin> set [0..<N] \<longrightarrow> get_slice G' j = get_slice (zeros rows cols N) j)"
    using zeros_shape by (intro load_slices_roundtrip)
  then
  obtain G where G: "load_slices fs directory rows cols [0..<N] (zeros rows cols N) = Inr G"
    "has_shape G rows cols N" "\<forall>i\<in>set [0..<N]. get_slice G i = Inr (T i)"
    by auto
  have "load_from fs directory = Inr (\<lparr>l0 = l0v, dl = dlv, w = wv, Delta = G\<rparr>, spectrum)"
    using axes sizes G(1) by (simp add: load_from_def)
  with G(2,3) show ?thesis by auto
qed

lemma load_calculated_data_roundtrip:
  assumes "exists fs directory"
    and "loadtxt fs (join directory ''l0.txt'') = Inr l0v"
      "loadtxt fs (join directory ''dl.txt'') = Inr dlv"
      "loadtxt fs (join directory ''w.txt'') = Inr wv"
      "loadtxt fs (join directory ''spectrum.txt'') = Inr spectrum"
    and "size_of dlv = rows" "size_of l0v = cols" "size_of wv = N"
    and "\<forall>i<N. fs (join directory (''Delta_'' @ str i @ ''.txt'')) = Some (TextFile (T i)) \<and>
           table_shape (T i) rows cols"
    and "0 < rows" "0 < cols" "cols \<noteq> 1 \<or> rows = 1"
  shows "\<exists>G. load_calculated_data fs directory =
             ([], Inr (Some (\<lparr>l0 = l0v, dl = dlv, w = wv, Delta = G\<rparr>, spectrum))) \<and>
           has_shape G rows cols N \<and> (\<forall>i<N. get_slice G i = Inr (T i))"
proof -
  from load_roundtrip [OF assms(2-)] obtain G where
    "load_from fs directory = Inr (\<lparr>l0 = l0v, dl = dlv, w = wv, Delta = G\<rparr>, spectrum)"
    "has_shape G rows cols N" "\<forall>i<N. get_slice G i = Inr (T i)"
    by blast
  with assms(1) show ?thesis by (auto simp: load_calculated_data_def)
qed

text \<open>
  Claim C2. The claim says that for every valid directory with \<open>|l0| = cols\<close>,
  \<open>|dl| = rows\<close>, \<open>|w| = N\<close> and slice files that are tables of \<open>rows\<close> rows and \<open>cols\<close>
  columns, the function returns a grid of shape \<open>(rows, cols, N)\<close> whose slice \<open>i\<close>
  holds the values of the file \<open>Delta_i\<close>. That is what the function does for every
  shape with \<open>cols \<noteq> 1\<close> or \<open>rows = 1\<close> (\<open>load_calculated_data_roundtrip\<close>). It is not
  what it does for a single column of several rows: \<open>np.loadtxt\<close> returns the slice
  file's column as a one-dimensional array of \<open>rows\<close> values, and the assignment to the
  slice of shape \<open>(rows, 1)\<close> raises ValueError. The directory \<open>single_column_run\<close> is
  such an input: one \<open>l0\<close> sample, two \<open>dl\<close> samples, one \<open>w\<close> sample and \<open>Delta_0\<close> a
  table of two rows and one column.
\<close>

theorem single_column_load_fails:
  "exists single_column_run ''run'' \<and>
   loadtxt single_column_run (join ''run'' ''l0.txt'') = Inr (A0 500) \<and>
   size_of (A0 500) = 1 \<and>
   loadtxt single_column_run (join ''run'' ''dl.txt'') = Inr (A1 [10, 20]) \<and>
   size_of (A1 [10, 20]) = 2 \<and>
   loadtxt single_column_run (join ''run'' ''w.txt'') = Inr (A0 (1/2)) \<and>
   size_of (A0 (1/2)) = 1 \<and>
   loadtxt single_column_run (join ''run'' ''spectrum.txt'') = Inr (A2 [[400, 1], [500, 2]]) \<and>
   single_column_run (join ''run'' (''Delta_'' @ str 0 @ ''.txt'')) =
     Some (TextFile [[1], [2]]) \<and>
   table_shape [[1], [2]] 2 1 \<and>
   loadtxt single_column_run (join ''run'' (''Delta_'' @ str 0 @ ''.txt'')) = Inr (A1 [1, 2]) \<and>
   broadcast_to (A1 [1, 2]) 2 1 = Inl ValueError \<and>
   load_calculated_data single_column_run ''run'' = ([], Inl ValueError)"
  by code_simp

end
